theory Spec2Isabelle
  imports Complex_Main "HOL-Library.Log_Nat"
begin

section \<open>Windows\<close>

text \<open>
  \<^verbatim>\<open>CCD.py\<close> imports the class \<^verbatim>\<open>Window\<close> from \<^verbatim>\<open>Window.py\<close>, which is not among
  the sources. A Window is modelled from section 3 of the specification: the unbinned
  offset of its lower-left corner, its binning factors, its binned dimensions and a
  pixel buffer of shape \<open>(ny, nx)\<close>, kept row by row in one list, with one of three
  element kinds. A pixel is the real number that its machine number denotes. The
  arithmetic that \<^verbatim>\<open>CCD.py\<close> itself does on numbers, in \<^verbatim>\<open>CCD.mean\<close>, is
  double-precision arithmetic and is modelled with its rounding; the arithmetic inside
  \<^verbatim>\<open>Window\<close> is a parameter.
\<close>

datatype dtype = UInt16 | Float32 | Float64

record window =
  llx :: nat
  lly :: nat
  xbin :: nat
  ybin :: nat
  nx :: nat
  ny :: nat
  buf :: "real list"
  kind :: dtype

text \<open>
  Modelled from the spec: \<^verbatim>\<open>Window.__eq__\<close> (section 4.1, "two Windows are equal iff
  position, binning, shape, and all pixel values match exactly") and \<^verbatim>\<open>Window.__ne__\<close>,
  its negation.
\<close>

definition win_eq :: "window \<Rightarrow> window \<Rightarrow> bool" where
  "win_eq w v \<longleftrightarrow>
     llx w = llx v \<and> lly w = lly v \<and> xbin w = xbin v \<and> ybin w = ybin v \<and>
     nx w = nx v \<and> ny w = ny v \<and> buf w = buf v"

definition win_ne :: "window \<Rightarrow> window \<Rightarrow> bool" where
  "win_ne w v \<longleftrightarrow> \<not> win_eq w v"

text \<open>
  Errors are values. \<^verbatim>\<open>UltracamError\<close> is the package's one exception class, told
  apart by its message; the two messages of \<^verbatim>\<open>CCD.cropTo\<close> are the constructors of
  \<open>message\<close>, the second carrying the ordinal that the source prints with
  \<^verbatim>\<open>str(nwino+1)\<close>. \<open>AttributeError\<close>, \<open>ZeroDivisionError\<close> and \<open>OverflowError\<close> are
  Python's own, \<open>ValueError\<close> is what a reduction of an empty buffer raises, and
  \<open>WindowError\<close> stands for any other exception raised inside a Window operator.
\<close>

datatype message = Crop_dimensions | Crop_window nat

datatype error =
    UltracamError message
  | AttributeError
  | ZeroDivisionError
  | OverflowError
  | ValueError
  | WindowError nat

text \<open>
  Modelled from the spec: the reductions of \<^verbatim>\<open>Window\<close> (section 4.1: \<^verbatim>\<open>size\<close>, the
  pixel count, \<^verbatim>\<open>min()\<close>, \<^verbatim>\<open>max()\<close>) and its element kind. The spec does not say
  what \<^verbatim>\<open>min()\<close> and \<^verbatim>\<open>max()\<close> do on a buffer without pixels; the model raises
  there, as the reductions of the array library do.
\<close>

definition win_size :: "window \<Rightarrow> nat" where
  "win_size w = length (buf w)"

definition win_min :: "window \<Rightarrow> error + real" where
  "win_min w = (if buf w = [] then Inl ValueError else Inr (Min (set (buf w))))"

definition win_max :: "window \<Rightarrow> error + real" where
  "win_max w = (if buf w = [] then Inl ValueError else Inr (Max (set (buf w))))"

definition is_integer :: "dtype \<Rightarrow> bool" where
  "is_integer k \<longleftrightarrow> k = UInt16"

definition is_floating :: "dtype \<Rightarrow> bool" where
  "is_floating k \<longleftrightarrow> k = Float32 \<or> k = Float64"

text \<open>
  Modelled from the spec: \<^verbatim>\<open>Window.totype(kind)\<close> (section 4.1: "converts the buffer to
  the requested numeric kind; for integer targets, values are rounded to nearest";
  section 4.5 calls the conversion to unsigned 16-bit integers "lossy/wrapping"). The
  conversion is in place: the Window keeps its position, binning and shape.
\<close>

definition to_uint16 :: "real \<Rightarrow> real" where
  "to_uint16 p = real_of_int (round p mod 65536)"

definition totype :: "dtype \<Rightarrow> window \<Rightarrow> window" where
  "totype k w =
     (if is_integer k then w\<lparr>buf := map to_uint16 (buf w), kind := k\<rparr>
      else w\<lparr>kind := k\<rparr>)"

text \<open>
  Modelled from the spec: the geometry of \<^verbatim>\<open>Window\<close> (section 4.1). A Window covers the
  unbinned columns \<open>llx \<le> x < llx + xbin * nx\<close> and rows \<open>lly \<le> y < lly + ybin * ny\<close>.
  \<^verbatim>\<open>self >= other\<close>: the region of \<open>other\<close> lies within the region of \<open>self\<close>, at a
  binning that is a multiple of that of \<open>self\<close>. \<^verbatim>\<open>canCropTo\<close>: \<open>other\<close> has the binning
  of \<open>self\<close> and covers a block of whole pixels of \<open>self\<close>. \<^verbatim>\<open>cropTo\<close>: the new Window
  with the position, binning and shape of \<open>other\<close> and the pixels of that block.
\<close>

definition inside :: "window \<Rightarrow> window \<Rightarrow> bool" where
  "inside other self \<longleftrightarrow>
     llx self \<le> llx other \<and>
     llx other + xbin other * nx other \<le> llx self + xbin self * nx self \<and>
     lly self \<le> lly other \<and>
     lly other + ybin other * ny other \<le> lly self + ybin self * ny self"


definition win_canCropTo :: "window \<Rightarrow> window \<Rightarrow> bool" where
  "win_canCropTo self other \<longleftrightarrow>
     xbin self = xbin other \<and> ybin self = ybin other \<and> inside other self \<and>
     xbin self dvd (llx other - llx self) \<and> ybin self dvd (lly other - lly self)"

definition win_cropTo :: "window \<Rightarrow> window \<Rightarrow> window" where
  "win_cropTo self other =
     (let x1 = (llx other - llx self) div xbin self;
          y1 = (lly other - lly self) div ybin self
      in \<lparr>llx = llx other, lly = lly other, xbin = xbin other, ybin = ybin other,
          nx = nx other, ny = ny other,
          buf = concat (map (\<lambda>y. take (nx other) (drop (y * nx self + x1) (buf self)))
                          [y1 ..< y1 + ny other]),
          kind = kind self\<rparr>)"

section \<open>Double-precision numbers\<close>

text \<open>
  A Python float and a 64-bit float of the array library are IEEE 754 binary64 numbers:
  a finite value, an infinity or a nan. \<open>Finite x\<close> stands for the double of value \<open>x\<close>;
  the two zeros of the format are not told apart (they compare equal, and no operation
  modelled here divides by a negative zero).

  \<open>rnd\<close> rounds a real number to the nearest double, ties to the even significand: the
  significand has 53 bits, so the spacing of the doubles around \<open>x\<close> is \<open>2\<close> to the power
  \<open>e - 52\<close> for \<open>e\<close> the binary exponent of \<open>x\<close>, at least \<open>-1022\<close>; a result of magnitude
  \<open>2\<close> to the power 1024 or more overflows to an infinity. \<open>expo x\<close> is the binary
  exponent of a positive \<open>x\<close>, the integer \<open>e\<close> with \<open>2\<close> to the \<open>e\<close> at most \<open>x\<close> and \<open>x\<close>
  below \<open>2\<close> to the \<open>e + 1\<close>.
\<close>

datatype fvalue = Finite real | NaN | PosInf | NegInf

definition pow2 :: "int \<Rightarrow> real" where
  "pow2 e = (if 0 \<le> e then 2 ^ nat e else 1 / 2 ^ nat (- e))"

definition expo :: "real \<Rightarrow> int" where
  "expo x =
     (if 1 \<le> x then int (floorlog 2 (nat \<lfloor>x\<rfloor>)) - 1
      else - int (floorlog 2 (nat \<lceil>1 / x\<rceil> - 1)))"

definition rne :: "real \<Rightarrow> int" where
  "rne m =
     (let f = \<lfloor>m\<rfloor>
      in if m - of_int f < 1 / 2 then f
         else if 1 / 2 < m - of_int f then f + 1
         else if even f then f else f + 1)"

definition rnd :: "real \<Rightarrow> fvalue" where
  "rnd x =
     (if x = 0 then Finite 0
      else
        (let q = pow2 (max (expo \<bar>x\<bar>) (- 1022) - 52);
             y = of_int (rne (x / q)) * q
         in if pow2 1024 \<le> \<bar>y\<bar> then (if 0 < x then PosInf else NegInf) else Finite y))"

text \<open>
  Addition of doubles, and division of a double by a finite double \<open>d\<close> that is not
  negative (the divisor of \<^verbatim>\<open>CCD.mean\<close> is \<^verbatim>\<open>float(nelem)\<close>). Division by zero is the
  division of the format here: nan for \<open>0 / 0\<close>, an infinity otherwise.
\<close>

fun fadd :: "fvalue \<Rightarrow> fvalue \<Rightarrow> fvalue" where
  "fadd (Finite a) (Finite b) = rnd (a + b)"
| "fadd NaN y = NaN"
| "fadd x NaN = NaN"
| "fadd PosInf NegInf = NaN"
| "fadd NegInf PosInf = NaN"
| "fadd PosInf y = PosInf"
| "fadd NegInf y = NegInf"
| "fadd (Finite a) PosInf = PosInf"
| "fadd (Finite a) NegInf = NegInf"

fun fdiv :: "fvalue \<Rightarrow> real \<Rightarrow> fvalue" where
  "fdiv (Finite a) d =
     (if d = 0 then (if a = 0 then NaN else if 0 < a then PosInf else NegInf)
      else rnd (a / d))"
| "fdiv NaN d = NaN"
| "fdiv PosInf d = PosInf"
| "fdiv NegInf d = NegInf"

text \<open>
  A float is a Python float or a scalar of the array library. They hold the same
  doubles and differ in what division by zero does. The sum of two Python floats is a
  Python float; a sum with a scalar of the array library is such a scalar.
\<close>

datatype scalar = PyFloat fvalue | NpFloat fvalue

fun add_scalar :: "scalar \<Rightarrow> scalar \<Rightarrow> scalar" where
  "add_scalar (PyFloat a) (PyFloat b) = PyFloat (fadd a b)"
| "add_scalar (PyFloat a) (NpFloat b) = NpFloat (fadd a b)"
| "add_scalar (NpFloat a) (PyFloat b) = NpFloat (fadd a b)"
| "add_scalar (NpFloat a) (NpFloat b) = NpFloat (fadd a b)"

section \<open>The operators of Window\<close>

text \<open>
  The arithmetic of \<^verbatim>\<open>Window\<close>, its \<^verbatim>\<open>sum()\<close> and its \<^verbatim>\<open>median()\<close> are not in the
  sources and the spec leaves their results open (element kinds, shapes that differ,
  division by a zero pixel, the order and the precision in which \<^verbatim>\<open>sum()\<close> adds), so
  they are parameters of the CCD operators: \<open>w_inplace\<close> gives the buffer that
  \<^verbatim>\<open>win += x\<close> (and its siblings) leaves in \<open>win\<close>, \<open>w_binary\<close> the new Window of
  \<^verbatim>\<open>win + x\<close>, \<open>w_reflected\<close> that of \<^verbatim>\<open>x + win\<close>, each for the four operators; any of
  them may raise. \<open>w_sum\<close> gives the number that \<^verbatim>\<open>win.sum()\<close> contributes to a
  double-precision sum, and whether it is a Python float or a scalar of the array
  library. Section 4.8 of the spec: an in-place operator mutates the pixel buffer of the
  existing Window, a value-returning one builds a new Window.
\<close>

datatype binop = Add | Sub | Mul | Div

datatype woperand = Win window | Num real

record window_ops =
  w_inplace :: "binop \<Rightarrow> window \<Rightarrow> woperand \<Rightarrow> error + real list"
  w_binary :: "binop \<Rightarrow> window \<Rightarrow> woperand \<Rightarrow> error + window"
  w_reflected :: "binop \<Rightarrow> real \<Rightarrow> window \<Rightarrow> error + window"
  w_median :: "window \<Rightarrow> error + real"
  w_sum :: "window \<Rightarrow> scalar"

section \<open>The object store and CCDs\<close>

text \<open>
  Window objects are mutable and shared by reference: a CCD holds a list of references.
  The store lists the Window objects allocated so far, an address being a position in
  it; a new object is appended. The record \<open>ccd\<close> holds the attributes of a CCD as a
  method reads them, the list \<^verbatim>\<open>_data\<close> as the list of the addresses of its Windows.
  The capture time and the header are opaque values of any type.
\<close>

type_synonym addr = nat
type_synonym store = "window list"

record ('t, 'h) ccd =
  data :: "addr list"
  time :: 't
  nxmax :: int
  nymax :: int
  good :: bool
  head :: "'h option"

definition windows :: "store \<Rightarrow> ('t, 'h) ccd \<Rightarrow> window list" where
  "windows s c = map (\<lambda>r. s ! r) (data c)"


definition len :: "('t, 'h) ccd \<Rightarrow> nat" where
  "len c = length (data c)"

text \<open>
  The constructor \<^verbatim>\<open>CCD.__init__\<close> raises when an element of \<^verbatim>\<open>wins\<close> is not a Window
  or \<^verbatim>\<open>head\<close> is neither a header nor \<^verbatim>\<open>None\<close>; the types exclude both, so it is
  the record of its arguments.
\<close>

definition CCD_init ::
  "addr list \<Rightarrow> 't \<Rightarrow> int \<Rightarrow> int \<Rightarrow> bool \<Rightarrow> 'h option \<Rightarrow> ('t, 'h) ccd" where
  "CCD_init wins t nxm nym g h =
     \<lparr>data = wins, time = t, nxmax = nxm, nymax = nym, good = g, head = h\<rparr>"

subsection \<open>CCD objects\<close>

text \<open>
  The in-place methods and \<^verbatim>\<open>cropTo\<close> are about the CCD objects themselves: which
  object is returned, and what becomes of the attributes of an object. For them a heap
  holds three kinds of objects: the Windows, the lists of Windows (a list object holds
  the addresses of its elements), and the CCDs, whose attribute \<^verbatim>\<open>_data\<close> is the
  reference \<open>o_data\<close> to a list object. A reference is a position in the list of the
  objects of its kind. \<open>CCD_new\<close> is the constructor called on a new list: it allocates
  the list and the CCD. \<open>data_of h c\<close> is \<^verbatim>\<open>c._data\<close> read as a list of addresses, and
  \<open>deref h c\<close> the attributes of the object \<open>c\<close> as a method reads them.
\<close>

type_synonym ref = nat

record ('t, 'h) ccd_object =
  o_data :: ref
  o_time :: 't
  o_nxmax :: int
  o_nymax :: int
  o_good :: bool
  o_head :: "'h option"

record ('t, 'h) heap =
  h_wins :: store
  h_lists :: "addr list list"
  h_ccds :: "('t, 'h) ccd_object list"

definition data_of :: "('t, 'h) heap \<Rightarrow> ref \<Rightarrow> addr list" where
  "data_of h c = h_lists h ! o_data (h_ccds h ! c)"

definition deref :: "('t, 'h) heap \<Rightarrow> ref \<Rightarrow> ('t, 'h) ccd" where
  "deref h c =
     CCD_init (data_of h c) (o_time (h_ccds h ! c)) (o_nxmax (h_ccds h ! c)) (o_nymax (h_ccds h ! c))
       (o_good (h_ccds h ! c)) (o_head (h_ccds h ! c))"

definition CCD_new ::
  "('t, 'h) heap \<Rightarrow> addr list \<Rightarrow> 't \<Rightarrow> int \<Rightarrow> int \<Rightarrow> bool \<Rightarrow> 'h option \<Rightarrow>
     ('t, 'h) heap \<times> ref" where
  "CCD_new h wins t nxm nym g hdr =
     (h\<lparr>h_lists := h_lists h @ [wins],
        h_ccds := h_ccds h @ [\<lparr>o_data = length (h_lists h), o_time = t, o_nxmax = nxm,
                            o_nymax = nym, o_good = g, o_head = hdr\<rparr>]\<rparr>,
      length (h_ccds h))"

text \<open>
  An object is well allocated when its references lead to objects of the heap.
\<close>

definition allocated :: "('t, 'h) heap \<Rightarrow> ref \<Rightarrow> bool" where
  "allocated h c \<longleftrightarrow>
     c < length (h_ccds h) \<and> o_data (h_ccds h ! c) < length (h_lists h) \<and>
     list_all (\<lambda>r. r < length (h_wins h)) (data_of h c)"

section \<open>Equality\<close>

text \<open>
  \<^verbatim>\<open>CCD.__eq__\<close> returns a bool after the guard on the dimensions and the window
  counts; \<^verbatim>\<open>CCD.__ne__\<close> passes \<^verbatim>\<open>NotImplemented\<close> through and negates a bool.
\<close>

datatype cmp = NotImplemented | Bool bool

fun eq_loop :: "(window \<times> window) list \<Rightarrow> bool" where
  "eq_loop [] = True"
| "eq_loop ((swin, owin) # ps) = (if win_ne swin owin then False else eq_loop ps)"

definition ccd_eq :: "store \<Rightarrow> ('t, 'h) ccd \<Rightarrow> ('t, 'h) ccd \<Rightarrow> cmp" where
  "ccd_eq s self other =
     (if nxmax self \<noteq> nxmax other \<or> nymax self \<noteq> nymax other \<or> len self \<noteq> len other
      then Bool False
      else Bool (eq_loop (zip (windows s self) (windows s other))))"

definition ccd_ne :: "store \<Rightarrow> ('t, 'h) ccd \<Rightarrow> ('t, 'h) ccd \<Rightarrow> cmp" where
  "ccd_ne s self other =
     (case ccd_eq s self other of
        NotImplemented \<Rightarrow> NotImplemented
      | Bool result \<Rightarrow> Bool (\<not> result))"

section \<open>Type introspection and conversion\<close>

fun anyInt_loop :: "window list \<Rightarrow> bool" where
  "anyInt_loop [] = False"
| "anyInt_loop (win # ws) = (if is_integer (kind win) then True else anyInt_loop ws)"


fun anyFloat_loop :: "window list \<Rightarrow> bool" where
  "anyFloat_loop [] = False"
| "anyFloat_loop (win # ws) = (if is_floating (kind win) then True else anyFloat_loop ws)"

definition anyFloat :: "store \<Rightarrow> ('t, 'h) ccd \<Rightarrow> bool" where
  "anyFloat s self = anyFloat_loop (windows s self)"

fun toFloat_loop :: "bool \<Rightarrow> store \<Rightarrow> addr list \<Rightarrow> store" where
  "toFloat_loop single s [] = s"
| "toFloat_loop single s (r # rs) =
     toFloat_loop single
       (s[r := (if single then totype Float32 (s ! r) else totype Float64 (s ! r))]) rs"

definition toFloat :: "store \<Rightarrow> ('t, 'h) ccd \<Rightarrow> bool \<Rightarrow> store" where
  "toFloat s self single = toFloat_loop single s (data self)"

text \<open>
  \<^verbatim>\<open>toInt\<close> visits the Windows in order. A warning is a line of output and never an
  exception; the loop collects the warnings issued. The result is the store, the
  warnings, and the error that stopped the loop, if a reduction raised.
\<close>

definition toInt_warning :: string where
  "toInt_warning = ''CCD.toInt: input data out of range 0 to 65535''"

fun toInt_loop :: "store \<Rightarrow> addr list \<Rightarrow> string list \<Rightarrow> store \<times> string list \<times> error option" where
  "toInt_loop s [] out = (s, out, None)"
| "toInt_loop s (r # rs) out =
     (case win_min (s ! r) of
        Inl e \<Rightarrow> (s, out, Some e)
      | Inr lo \<Rightarrow>
          if lo < 0 then toInt_loop (s[r := totype UInt16 (s ! r)]) rs (out @ [toInt_warning])
          else
            (case win_max (s ! r) of
               Inl e \<Rightarrow> (s, out, Some e)
             | Inr hi \<Rightarrow>
                 if hi > 65535
                 then toInt_loop (s[r := totype UInt16 (s ! r)]) rs (out @ [toInt_warning])
                 else toInt_loop (s[r := totype UInt16 (s ! r)]) rs out))"

definition toInt :: "store \<Rightarrow> ('t, 'h) ccd \<Rightarrow> store \<times> string list \<times> error option" where
  "toInt s self = toInt_loop s (data self) []"

section \<open>Aggregate statistics\<close>

text \<open>
  In \<^verbatim>\<open>mean\<close> the counter \<^verbatim>\<open>nelem\<close> is a Python integer, without bound. The accumulator
  \<^verbatim>\<open>sum\<close> (\<open>sumv\<close> below) starts as the Python float \<^verbatim>\<open>0.\<close>, and each
  \<^verbatim>\<open>sum += win.sum()\<close> is one addition of doubles. \<^verbatim>\<open>float(nelem)\<close> rounds the
  integer to the nearest double and raises \<^verbatim>\<open>OverflowError\<close> when there is none. The
  final division raises \<^verbatim>\<open>ZeroDivisionError\<close> on a zero divisor when \<^verbatim>\<open>sum\<close> is a
  Python float; the division of the array library returns nan or an infinity there and
  does not raise.
\<close>

definition py_float :: "nat \<Rightarrow> error + real" where
  "py_float n = (case rnd (real n) of Finite d \<Rightarrow> Inr d | _ \<Rightarrow> Inl OverflowError)"

fun true_divide :: "scalar \<Rightarrow> real \<Rightarrow> error + fvalue" where
  "true_divide (PyFloat a) d = (if d = 0 then Inl ZeroDivisionError else Inr (fdiv a d))"
| "true_divide (NpFloat a) d = Inr (fdiv a d)"

fun mean_loop :: "window_ops \<Rightarrow> window list \<Rightarrow> nat \<Rightarrow> scalar \<Rightarrow> nat \<times> scalar" where
  "mean_loop W [] nelem sumv = (nelem, sumv)"
| "mean_loop W (win # ws) nelem sumv =
     mean_loop W ws (nelem + win_size win) (add_scalar sumv (w_sum W win))"

definition mean :: "window_ops \<Rightarrow> store \<Rightarrow> ('t, 'h) ccd \<Rightarrow> error + fvalue" where
  "mean W s self =
     (case mean_loop W (windows s self) 0 (PyFloat (Finite 0)) of
        (nelem, sumv) \<Rightarrow>
          (case py_float nelem of
             Inl e \<Rightarrow> Inl e
           | Inr d \<Rightarrow> true_divide sumv d))"

fun min_loop :: "window list \<Rightarrow> real option \<Rightarrow> error + real option" where
  "min_loop [] minv = Inr minv"
| "min_loop (win # ws) minv =
     (case win_min win of
        Inl e \<Rightarrow> Inl e
      | Inr m \<Rightarrow> min_loop ws (Some (case minv of None \<Rightarrow> m | Some v \<Rightarrow> min v m)))"

definition ccd_min :: "store \<Rightarrow> ('t, 'h) ccd \<Rightarrow> error + real option" where
  "ccd_min s self = min_loop (windows s self) None"

fun max_loop :: "window list \<Rightarrow> real option \<Rightarrow> error + real option" where
  "max_loop [] maxv = Inr maxv"
| "max_loop (win # ws) maxv =
     (case win_max win of
        Inl e \<Rightarrow> Inl e
      | Inr m \<Rightarrow> max_loop ws (Some (case maxv of None \<Rightarrow> m | Some v \<Rightarrow> max v m)))"

definition ccd_max :: "store \<Rightarrow> ('t, 'h) ccd \<Rightarrow> error + real option" where
  "ccd_max s self = max_loop (windows s self) None"

fun npix_loop :: "window list \<Rightarrow> nat \<Rightarrow> nat" where
  "npix_loop [] n = n"
| "npix_loop (win # ws) n = npix_loop ws (n + win_size win)"

definition npix :: "store \<Rightarrow> ('t, 'h) ccd \<Rightarrow> nat" where
  "npix s self = npix_loop (windows s self) 0"

section \<open>Background removal\<close>

text \<open>
  \<^verbatim>\<open>win -= win.median()\<close> is the in-place subtraction of \<^verbatim>\<open>Window\<close> with a scalar
  operand. The loop works on the store of the Windows; its result is the store and the
  error that stopped it, if any. \<^verbatim>\<open>rback\<close> runs it on the Windows of the object \<open>self\<close>
  and returns nothing.
\<close>

fun rback_loop :: "window_ops \<Rightarrow> store \<Rightarrow> addr list \<Rightarrow> store \<times> error option" where
  "rback_loop W s [] = (s, None)"
| "rback_loop W s (r # rs) =
     (case w_median W (s ! r) of
        Inl e \<Rightarrow> (s, Some e)
      | Inr m \<Rightarrow>
          (case w_inplace W Sub (s ! r) (Num m) of
             Inl e \<Rightarrow> (s, Some e)
           | Inr b \<Rightarrow> rback_loop W (s[r := (s ! r)\<lparr>buf := b\<rparr>]) rs))"

definition rback ::
  "window_ops \<Rightarrow> ('t, 'h) heap \<Rightarrow> ref \<Rightarrow> ('t, 'h) heap \<times> error option" where
  "rback W h self =
     (case rback_loop W (h_wins h) (data_of h self) of (s', e) \<Rightarrow> (h\<lparr>h_wins := s'\<rparr>, e))"

section \<open>Cropping\<close>




text \<open>
  \<^verbatim>\<open>cropTo\<close>: the inner loop returns the crop of the first Window of \<open>self\<close> that can be
  cropped to \<open>wino\<close>, or nothing (the \<^verbatim>\<open>else\<close> of the \<^verbatim>\<open>for\<close>). Each cropped Window is
  a new object, appended to the store; \<open>wins\<close> collects the new addresses. The method
  works on the heap: it reads the objects \<open>self\<close> and \<open>ccd\<close> and returns the reference
  to the CCD that the constructor allocates. The Windows cropped before an error stay in
  the store, out of reach.
\<close>

fun cropTo_inner :: "store \<Rightarrow> addr list \<Rightarrow> window \<Rightarrow> window option" where
  "cropTo_inner s [] wino = None"
| "cropTo_inner s (r # rs) wino =
     (if win_canCropTo (s ! r) wino then Some (win_cropTo (s ! r) wino)
      else cropTo_inner s rs wino)"

fun cropTo_outer ::
  "store \<Rightarrow> addr list \<Rightarrow> nat \<Rightarrow> addr list \<Rightarrow> addr list \<Rightarrow> store \<times> (error + addr list)" where
  "cropTo_outer s sdata nwino [] wins = (s, Inr wins)"
| "cropTo_outer s sdata nwino (q # qs) wins =
     (case cropTo_inner s sdata (s ! q) of
        None \<Rightarrow> (s, Inl (UltracamError (Crop_window (nwino + 1))))
      | Some w \<Rightarrow> cropTo_outer (s @ [w]) sdata (nwino + 1) qs (wins @ [length s]))"

definition cropTo ::
  "('t, 'h) heap \<Rightarrow> ref \<Rightarrow> ref \<Rightarrow> ('t, 'h) heap \<times> (error + ref)" where
  "cropTo h self ccd =
     (if o_nxmax (h_ccds h ! self) \<noteq> o_nxmax (h_ccds h ! ccd) \<or>
         o_nymax (h_ccds h ! self) \<noteq> o_nymax (h_ccds h ! ccd)
      then (h, Inl (UltracamError Crop_dimensions))
      else
        (case cropTo_outer (h_wins h) (data_of h self) 0 (data_of h ccd) [] of
           (s', Inl e) \<Rightarrow> (h\<lparr>h_wins := s'\<rparr>, Inl e)
         | (s', Inr ws) \<Rightarrow>
             (case CCD_new (h\<lparr>h_wins := s'\<rparr>) ws (o_time (h_ccds h ! self))
                     (o_nxmax (h_ccds h ! self)) (o_nymax (h_ccds h ! self))
                     (o_good (h_ccds h ! self)) (o_head (h_ccds h ! self)) of
                (h', c) \<Rightarrow> (h', Inr c))))"

section \<open>Arithmetic\<close>

text \<open>
  The right operand of an operator is a CCD or a scalar; \<^verbatim>\<open>isinstance(other, CCD)\<close>
  is the case distinction. A scalar is a number and has no attribute \<^verbatim>\<open>good\<close>.
\<close>

datatype ('t, 'h) operand = CCD "('t, 'h) ccd" | Scalar real

subsection \<open>In-place operators\<close>

text \<open>
  The in-place operators work on the heap: the left operand is the object \<open>self\<close>, the
  right operand a CCD object or a number, and \<^verbatim>\<open>return self\<close> returns the reference
  \<open>self\<close>. The loops work on the store of the Windows: \<^verbatim>\<open>win += owin\<close> leaves its result
  in the buffer of the object \<open>win\<close>, and the next pair is read from the store so changed.
\<close>

datatype argument = Object ref | Number real

fun iop_pairs ::
  "(window \<Rightarrow> woperand \<Rightarrow> error + real list) \<Rightarrow> store \<Rightarrow> (addr \<times> addr) list \<Rightarrow>
     store \<times> error option" where
  "iop_pairs f s [] = (s, None)"
| "iop_pairs f s ((r, q) # ps) =
     (case f (s ! r) (Win (s ! q)) of
        Inl e \<Rightarrow> (s, Some e)
      | Inr b \<Rightarrow> iop_pairs f (s[r := (s ! r)\<lparr>buf := b\<rparr>]) ps)"

fun iop_each ::
  "(window \<Rightarrow> woperand \<Rightarrow> error + real list) \<Rightarrow> store \<Rightarrow> addr list \<Rightarrow> real \<Rightarrow>
     store \<times> error option" where
  "iop_each f s [] x = (s, None)"
| "iop_each f s (r # rs) x =
     (case f (s ! r) (Num x) of
        Inl e \<Rightarrow> (s, Some e)
      | Inr b \<Rightarrow> iop_each f (s[r := (s ! r)\<lparr>buf := b\<rparr>]) rs x)"

definition ccd_iop ::
  "window_ops \<Rightarrow> binop \<Rightarrow> ('t, 'h) heap \<Rightarrow> ref \<Rightarrow> argument \<Rightarrow>
     ('t, 'h) heap \<times> (error + ref)" where
  "ccd_iop W bop h self other =
     (case (case other of
              Object c \<Rightarrow> iop_pairs (w_inplace W bop) (h_wins h) (zip (data_of h self) (data_of h c))
            | Number x \<Rightarrow> iop_each (w_inplace W bop) (h_wins h) (data_of h self) x) of
        (s', Some e) \<Rightarrow> (h\<lparr>h_wins := s'\<rparr>, Inl e)
      | (s', None) \<Rightarrow> (h\<lparr>h_wins := s'\<rparr>, Inr self))"

definition ccd_iadd ::
  "window_ops \<Rightarrow> ('t, 'h) heap \<Rightarrow> ref \<Rightarrow> argument \<Rightarrow> ('t, 'h) heap \<times> (error + ref)" where
  "ccd_iadd W = ccd_iop W Add"

definition ccd_isub ::
  "window_ops \<Rightarrow> ('t, 'h) heap \<Rightarrow> ref \<Rightarrow> argument \<Rightarrow> ('t, 'h) heap \<times> (error + ref)" where
  "ccd_isub W = ccd_iop W Sub"

definition ccd_imul ::
  "window_ops \<Rightarrow> ('t, 'h) heap \<Rightarrow> ref \<Rightarrow> argument \<Rightarrow> ('t, 'h) heap \<times> (error + ref)" where
  "ccd_imul W = ccd_iop W Mul"

definition ccd_idiv ::
  "window_ops \<Rightarrow> ('t, 'h) heap \<Rightarrow> ref \<Rightarrow> argument \<Rightarrow> ('t, 'h) heap \<times> (error + ref)" where
  "ccd_idiv W = ccd_iop W Div"

subsection \<open>Value-returning operators\<close>

text \<open>
  \<^verbatim>\<open>self.good and other.good\<close>: Python evaluates \<^verbatim>\<open>other.good\<close> only when
  \<^verbatim>\<open>self.good\<close> is true, and the attribute is looked up on whatever \<open>other\<close> is.
\<close>

fun getattr_good :: "('t, 'h) operand \<Rightarrow> error + bool" where
  "getattr_good (CCD oc) = Inr (good oc)"
| "getattr_good (Scalar x) = Inl AttributeError"

definition good_and :: "bool \<Rightarrow> ('t, 'h) operand \<Rightarrow> error + bool" where
  "good_and g other = (if g then getattr_good other else Inr g)"

fun op_pairs ::
  "(window \<Rightarrow> woperand \<Rightarrow> error + window) \<Rightarrow> store \<Rightarrow> (addr \<times> addr) list \<Rightarrow> addr list \<Rightarrow>
     store \<times> (error + addr list)" where
  "op_pairs f s [] twins = (s, Inr twins)"
| "op_pairs f s ((r, q) # ps) twins =
     (case f (s ! r) (Win (s ! q)) of
        Inl e \<Rightarrow> (s, Inl e)
      | Inr w \<Rightarrow> op_pairs f (s @ [w]) ps (twins @ [length s]))"

fun op_each ::
  "(window \<Rightarrow> error + window) \<Rightarrow> store \<Rightarrow> addr list \<Rightarrow> addr list \<Rightarrow>
     store \<times> (error + addr list)" where
  "op_each f s [] twins = (s, Inr twins)"
| "op_each f s (r # rs) twins =
     (case f (s ! r) of
        Inl e \<Rightarrow> (s, Inl e)
      | Inr w \<Rightarrow> op_each f (s @ [w]) rs (twins @ [length s]))"

definition finish ::
  "('t, 'h) ccd \<Rightarrow> ('t, 'h) operand \<Rightarrow> store \<times> (error + addr list) \<Rightarrow>
     store \<times> (error + ('t, 'h) ccd)" where
  "finish self other res =
     (case res of
        (s', Inl e) \<Rightarrow> (s', Inl e)
      | (s', Inr twins) \<Rightarrow>
          (case good_and (good self) other of
             Inl e \<Rightarrow> (s', Inl e)
           | Inr g \<Rightarrow>
               (s', Inr (CCD_init twins (time self) (nxmax self) (nymax self) g (head self)))))"

definition ccd_binop ::
  "window_ops \<Rightarrow> binop \<Rightarrow> store \<Rightarrow> ('t, 'h) ccd \<Rightarrow> ('t, 'h) operand \<Rightarrow>
     store \<times> (error + ('t, 'h) ccd)" where
  "ccd_binop W bop s self other =
     finish self other
       (case other of
          CCD oc \<Rightarrow> op_pairs (w_binary W bop) s (zip (data self) (data oc)) []
        | Scalar x \<Rightarrow> op_each (\<lambda>win. w_binary W bop win (Num x)) s (data self) [])"

definition ccd_add where "ccd_add W = ccd_binop W Add"
definition ccd_sub where "ccd_sub W = ccd_binop W Sub"
definition ccd_mul where "ccd_mul W = ccd_binop W Mul"
definition ccd_div where "ccd_div W = ccd_binop W Div"

text \<open>
  The reflected operators serve \<^verbatim>\<open>other + ccd\<close> for an \<open>other\<close> that is not a CCD. They
  have no case distinction: every Window is combined as \<^verbatim>\<open>other + win\<close>.
\<close>

definition ccd_rbinop ::
  "window_ops \<Rightarrow> binop \<Rightarrow> store \<Rightarrow> ('t, 'h) ccd \<Rightarrow> real \<Rightarrow> store \<times> (error + ('t, 'h) ccd)" where
  "ccd_rbinop W bop s self x =
     finish self (Scalar x) (op_each (w_reflected W bop x) s (data self) [])"

definition ccd_radd where "ccd_radd W = ccd_rbinop W Add"
definition ccd_rsub where "ccd_rsub W = ccd_rbinop W Sub"
definition ccd_rmul where "ccd_rmul W = ccd_rbinop W Mul"
definition ccd_rdiv where "ccd_rdiv W = ccd_rbinop W Div"

section \<open>Statements of the specification\<close>

text \<open>
  Section 7 of the specification reads \<^verbatim>\<open>__eq__\<close> as a comparison that "silently
  truncates to the shorter window sequence's length": the dimensions and the paired
  Windows decide, the window counts do not. \<open>eq_truncating\<close> is that reading, to be
  compared with \<open>ccd_eq\<close>.
\<close>

definition eq_truncating :: "store \<Rightarrow> ('t, 'h) ccd \<Rightarrow> ('t, 'h) ccd \<Rightarrow> cmp" where
  "eq_truncating s a b =
     Bool (nxmax a = nxmax b \<and> nymax a = nymax b \<and>
           list_all (\<lambda>(swin, owin). win_eq swin owin) (zip (windows s a) (windows s b)))"








text \<open>
  Section 4.7: a target Window is croppable when some Window of the list can be cropped
  to it; its crop is taken from the first such Window.
\<close>

definition croppable :: "window list \<Rightarrow> window \<Rightarrow> bool" where
  "croppable ws wino \<longleftrightarrow> list_ex (\<lambda>win. win_canCropTo win wino) ws"

definition first_crop :: "window list \<Rightarrow> window \<Rightarrow> window option" where
  "first_crop ws wino =
     map_option (\<lambda>win. win_cropTo win wino) (find (\<lambda>win. win_canCropTo win wino) ws)"


definition overlap :: "window \<Rightarrow> window \<Rightarrow> bool" where
  "overlap w v \<longleftrightarrow>
     max (llx w) (llx v) < min (llx w + xbin w * nx w) (llx v + xbin v * nx v) \<and>
     max (lly w) (lly v) < min (lly w + ybin w * ny w) (lly v + ybin v * ny v)"

definition non_overlapping :: "window list \<Rightarrow> bool" where
  "non_overlapping ws \<longleftrightarrow> (\<forall>j < length ws. \<forall>i < j. \<not> overlap (ws ! i) (ws ! j))"

text \<open>
  Two stores hold the same objects but for their pixel buffers: as many Windows, each
  with its position, binning, shape and element kind.
\<close>

definition same_but_buffers :: "store \<Rightarrow> store \<Rightarrow> bool" where
  "same_but_buffers s s' \<longleftrightarrow> map (\<lambda>w. w\<lparr>buf := []\<rparr>) s' = map (\<lambda>w. w\<lparr>buf := []\<rparr>) s"

text \<open>
  Section 4.1: the arithmetic of \<^verbatim>\<open>Window\<close> takes "another Window of equal shape". An
  in-place operator keeps to that when, given a Window with as many pixels, it returns
  and leaves as many pixels; the paired Windows are of equal shape when each pair has
  as many pixels on both sides.
\<close>

definition keeps_shape :: "(window \<Rightarrow> woperand \<Rightarrow> error + real list) \<Rightarrow> bool" where
  "keeps_shape f \<longleftrightarrow>
     (\<forall>w v. length (buf v) = length (buf w) \<longrightarrow>
        (\<exists>b. f w (Win v) = Inr b \<and> length b = length (buf w)))"

definition equal_shapes :: "store \<Rightarrow> (addr \<times> addr) list \<Rightarrow> bool" where
  "equal_shapes s ps \<longleftrightarrow> list_all (\<lambda>(r, q). length (buf (s ! r)) = length (buf (s ! q))) ps"

section \<open>Example objects\<close>

text \<open>
  Unbinned Windows of 64-bit floats, CCDs of a 100 by 100 detector at time 0 without a
  header, and heaps in which the CCD object \<open>i\<close> holds the list object \<open>i\<close>, for running
  the operations on concrete inputs.
\<close>

definition mk_window :: "nat \<Rightarrow> nat \<Rightarrow> nat \<Rightarrow> nat \<Rightarrow> real list \<Rightarrow> window" where
  "mk_window x y w h b =
     \<lparr>llx = x, lly = y, xbin = 1, ybin = 1, nx = w, ny = h, buf = b, kind = Float64\<rparr>"

definition mk_ccd :: "addr list \<Rightarrow> bool \<Rightarrow> (nat, string) ccd" where
  "mk_ccd ws g = CCD_init ws 0 100 100 g None"

definition mk_object :: "ref \<Rightarrow> (nat, string) ccd_object" where
  "mk_object l =
     \<lparr>o_data = l, o_time = 0, o_nxmax = 100, o_nymax = 100, o_good = True, o_head = None\<rparr>"

definition mk_heap :: "window list \<Rightarrow> addr list list \<Rightarrow> (nat, string) heap" where
  "mk_heap ws ls = \<lparr>h_wins = ws, h_lists = ls, h_ccds = map mk_object [0 ..< length ls]\<rparr>"

text \<open>
  One possible arithmetic of \<^verbatim>\<open>Window\<close>: exact arithmetic on each pixel, with a Window
  operand of the same pixel count; \<^verbatim>\<open>median()\<close> is the upper median; \<^verbatim>\<open>sum()\<close> adds
  the pixels in double precision, in the order of the buffer, and returns a scalar of the
  array library.
\<close>

fun pixel :: "binop \<Rightarrow> real \<Rightarrow> real \<Rightarrow> real" where
  "pixel Add p q = p + q"
| "pixel Sub p q = p - q"
| "pixel Mul p q = p * q"
| "pixel Div p q = p / q"

fun elementwise_buf :: "binop \<Rightarrow> window \<Rightarrow> woperand \<Rightarrow> error + real list" where
  "elementwise_buf bop w (Num x) = Inr (map (\<lambda>p. pixel bop p x) (buf w))"
| "elementwise_buf bop w (Win v) =
     (if length (buf v) = length (buf w) then Inr (map2 (pixel bop) (buf w) (buf v))
      else Inl ValueError)"

definition double_sum :: "real list \<Rightarrow> fvalue" where
  "double_sum ps = foldl (\<lambda>a p. fadd a (Finite p)) (Finite 0) ps"

definition elementwise :: window_ops where
  "elementwise =
     \<lparr>w_inplace = elementwise_buf,
      w_binary = (\<lambda>bop w x. map_sum id (\<lambda>b. w\<lparr>buf := b\<rparr>) (elementwise_buf bop w x)),
      w_reflected = (\<lambda>bop x w. Inr (w\<lparr>buf := map (pixel bop x) (buf w)\<rparr>)),
      w_median = (\<lambda>w. if buf w = [] then Inl ValueError
                       else Inr (sort (buf w) ! (length (buf w) div 2))),
      w_sum = (\<lambda>w. NpFloat (double_sum (buf w)))\<rparr>"

section \<open>Equality of CCDs\<close>

lemma eq_loop_iff: "eq_loop ps \<longleftrightarrow> list_all (\<lambda>(swin, owin). win_eq swin owin) ps"
  by (induction ps rule: eq_loop.induct) (simp_all add: win_ne_def)

lemma zip_all_nth:
  "length xs = length ys \<Longrightarrow>
     list_all (\<lambda>(x, y). P x y) (zip xs ys) \<longleftrightarrow> (\<forall>i < length xs. P (xs ! i) (ys ! i))"
  using list_all2_conv_all_nth [of P xs ys] by (simp add: list_all_iff list_all2_iff)

text \<open>
  Claim C4. \<^verbatim>\<open>a == b\<close> holds exactly when \<open>nxmax\<close> and \<open>nymax\<close> agree, the window counts
  agree, and the Window at every position of \<open>a\<close> equals the Window at the same position
  of \<open>b\<close>; \<^verbatim>\<open>a != b\<close> returns the negation of that.
\<close>

theorem ccd_eq_iff:
  "ccd_eq s a b =
     Bool (nxmax a = nxmax b \<and> nymax a = nymax b \<and> len a = len b \<and>
           (\<forall>i < len a. win_eq (windows s a ! i) (windows s b ! i)))
   \<and> ccd_ne s a b =
     Bool (\<not> (nxmax a = nxmax b \<and> nymax a = nymax b \<and> len a = len b \<and>
           (\<forall>i < len a. win_eq (windows s a ! i) (windows s b ! i))))"
proof -
  have "len a = len b \<Longrightarrow> eq_loop (zip (windows s a) (windows s b)) \<longleftrightarrow>
      (\<forall>i < len a. win_eq (windows s a ! i) (windows s b ! i))"
    using zip_all_nth [of "windows s a" "windows s b" win_eq]
    by (simp add: eq_loop_iff len_def windows_def)
  then have e: "ccd_eq s a b =
     Bool (nxmax a = nxmax b \<and> nymax a = nymax b \<and> len a = len b \<and>
           (\<forall>i < len a. win_eq (windows s a ! i) (windows s b ! i)))"
    by (auto simp: ccd_eq_def)
  then show ?thesis by (simp add: ccd_ne_def)
qed

theorem ccd_eq_iff_witness:
  "ccd_eq [mk_window 0 0 1 1 [5], mk_window 2 0 1 1 [7]] (mk_ccd [0, 1] True) (mk_ccd [0, 1] False)
     = Bool True
   \<and> ccd_ne [mk_window 0 0 1 1 [5], mk_window 2 0 1 1 [7]] (mk_ccd [0, 1] True) (mk_ccd [0, 1] False)
     = Bool False"
proof -
  let ?s = "[mk_window 0 0 1 1 [5], mk_window 2 0 1 1 [7]]"
  let ?a = "mk_ccd [0, 1] True" and ?b = "mk_ccd [0, 1] False"
  have dims: "nxmax ?a = nxmax ?b \<and> nymax ?a = nymax ?b \<and> len ?a = len ?b"
    by (simp add: mk_ccd_def CCD_init_def len_def)
  have "win_eq (windows ?s ?a ! i) (windows ?s ?b ! i)" for i
    by (simp add: mk_ccd_def CCD_init_def windows_def win_eq_def)
  with dims show ?thesis
    using ccd_eq_iff [of ?s ?a ?b] by simp
qed

text \<open>
  Claim C2, as stated: for CCDs with different window counts, \<^verbatim>\<open>a == b\<close> compares the
  dimensions and the paired Windows of the shorter length, and the count mismatch does
  not decide. It fails: a CCD with one Window and a CCD with that Window and one more
  agree on the dimensions and on the one pair, and \<^verbatim>\<open>__eq__\<close> returns \<open>False\<close>.
\<close>

theorem eq_truncating_counterexample:
  "len (mk_ccd [0] True) \<noteq> len (mk_ccd [0, 1] True)
   \<and> eq_truncating [mk_window 0 0 1 1 [5], mk_window 2 0 1 1 [7]] (mk_ccd [0] True) (mk_ccd [0, 1] True)
       = Bool True
   \<and> ccd_eq [mk_window 0 0 1 1 [5], mk_window 2 0 1 1 [7]] (mk_ccd [0] True) (mk_ccd [0, 1] True)
       = Bool False"
  by (simp add: eq_truncating_def ccd_eq_def mk_ccd_def CCD_init_def len_def windows_def win_eq_def)

text \<open>
  Claim C2, amended: for CCDs with different window counts \<^verbatim>\<open>a == b\<close> is \<open>False\<close> and
  \<^verbatim>\<open>a != b\<close> is \<open>True\<close>, whatever the dimensions and the Windows are: the guard on
  \<^verbatim>\<open>len(self) != len(other)\<close> decides before any Window is compared.
\<close>

theorem ccd_eq_count_mismatch:
  "len a \<noteq> len b \<Longrightarrow> ccd_eq s a b = Bool False \<and> ccd_ne s a b = Bool True"
  by (simp add: ccd_eq_def ccd_ne_def)

theorem ccd_eq_count_mismatch_witness:
  "len (mk_ccd [0] True) \<noteq> len (mk_ccd [0, 1] True)
   \<and> ccd_eq [mk_window 0 0 1 1 [5], mk_window 2 0 1 1 [7]] (mk_ccd [0] True) (mk_ccd [0, 1] True)
       = Bool False"
  using ccd_eq_count_mismatch
    [of "mk_ccd [0] True" "mk_ccd [0, 1] True" "[mk_window 0 0 1 1 [5], mk_window 2 0 1 1 [7]]"]
  by (simp add: mk_ccd_def CCD_init_def len_def)

section \<open>Aggregate statistics of CCDs\<close>

lemma rnd_zero: "rnd 0 = Finite 0"
  by (simp add: rnd_def)

lemma py_float_zero: "py_float 0 = Inr 0"
  by (simp add: py_float_def rnd_zero)

text \<open>
  Claim C9. On a CCD without Windows \<^verbatim>\<open>min()\<close> and \<^verbatim>\<open>max()\<close> return \<^verbatim>\<open>None\<close> and
  do not raise, and \<^verbatim>\<open>mean()\<close> raises \<^verbatim>\<open>ZeroDivisionError\<close>: the pixel count is 0.
\<close>

theorem empty_ccd_statistics:
  "data c = [] \<Longrightarrow>
     ccd_min s c = Inr None \<and> ccd_max s c = Inr None \<and> mean W s c = Inl ZeroDivisionError"
  by (simp add: ccd_min_def ccd_max_def mean_def windows_def py_float_zero)

theorem empty_ccd_statistics_witness:
  "data (mk_ccd [] True) = []
   \<and> ccd_min [mk_window 0 0 1 1 [5]] (mk_ccd [] True) = Inr None
   \<and> ccd_max [mk_window 0 0 1 1 [5]] (mk_ccd [] True) = Inr None
   \<and> mean elementwise [mk_window 0 0 1 1 [5]] (mk_ccd [] True) = Inl ZeroDivisionError"
  using empty_ccd_statistics [of "mk_ccd [] True" "[mk_window 0 0 1 1 [5]]" elementwise]
  by (simp add: mk_ccd_def CCD_init_def)










section \<open>Conversion to integers\<close>










lemma anyInt_loop_iff: "anyInt_loop ws \<longleftrightarrow> (\<exists>w \<in> set ws. is_integer (kind w))"
  by (induction ws) auto






section \<open>Arithmetic with a scalar operand\<close>

text \<open>
  Claim C1 says that \<^verbatim>\<open>c + s\<close>, \<^verbatim>\<open>c - s\<close>, \<^verbatim>\<open>c * s\<close>, \<^verbatim>\<open>c / s\<close> and the reflected forms
  return, for every scalar \<open>s\<close>, a CCD with the validity flag of \<open>c\<close>. The source builds
  the flag as \<^verbatim>\<open>self.good and other.good\<close> in the scalar branch too. When \<open>c\<close> is valid,
  Python evaluates \<^verbatim>\<open>other.good\<close> on the scalar: none of the eight operators returns a
  CCD. The Windows are computed first; then the attribute lookup raises.
\<close>

theorem scalar_operand_never_returns:
  "good c \<Longrightarrow>
     (\<forall>r. snd (ccd_binop W bop s c (Scalar x)) \<noteq> Inr r) \<and>
     (\<forall>r. snd (ccd_rbinop W bop s c x) \<noteq> Inr r)"
  by (auto simp: ccd_binop_def ccd_rbinop_def finish_def good_and_def
      split: prod.splits sum.splits)

theorem scalar_operand_never_returns_witness:
  "good (mk_ccd [0] True)
   \<and> ccd_add elementwise [mk_window 0 0 1 1 [5]] (mk_ccd [0] True) (Scalar 0)
       = ([mk_window 0 0 1 1 [5], mk_window 0 0 1 1 [5]], Inl AttributeError)
   \<and> ccd_radd elementwise [mk_window 0 0 1 1 [5]] (mk_ccd [0] True) 0
       = ([mk_window 0 0 1 1 [5], mk_window 0 0 1 1 [5]], Inl AttributeError)"
proof -
  have g: "good (mk_ccd [0] True)" by (simp add: mk_ccd_def CCD_init_def)
  have a: "ccd_add elementwise [mk_window 0 0 1 1 [5]] (mk_ccd [0] True) (Scalar 0)
       = ([mk_window 0 0 1 1 [5], mk_window 0 0 1 1 [5]], Inl AttributeError)"
    using scalar_operand_never_returns [OF g, of elementwise Add "[mk_window 0 0 1 1 [5]]" 0]
    by (simp add: ccd_add_def ccd_binop_def finish_def good_and_def elementwise_def
        mk_ccd_def CCD_init_def mk_window_def)
  have b: "ccd_radd elementwise [mk_window 0 0 1 1 [5]] (mk_ccd [0] True) 0
       = ([mk_window 0 0 1 1 [5], mk_window 0 0 1 1 [5]], Inl AttributeError)"
    by (simp add: ccd_radd_def ccd_rbinop_def finish_def good_and_def elementwise_def
        mk_ccd_def CCD_init_def mk_window_def)
  from g a b show ?thesis by blast
qed

section \<open>In-place operations\<close>

lemma same_but_buffers_refl: "same_but_buffers s s"
  by (simp add: same_but_buffers_def)

lemma same_but_buffers_update:
  assumes "same_but_buffers (s[r := (s ! r)\<lparr>buf := b\<rparr>]) s'"
  shows "same_but_buffers s s'"
proof (cases "r < length s")
  case True
  have "(map (\<lambda>w. w\<lparr>buf := []\<rparr>) s)[r := (s ! r)\<lparr>buf := []\<rparr>] = map (\<lambda>w. w\<lparr>buf := []\<rparr>) s"
    using True by (simp add: list_update_same_conv)
  then show ?thesis
    using assms by (simp add: same_but_buffers_def map_update)
next
  case False
  then have "length s \<le> r" by simp
  then have "s[r := (s ! r)\<lparr>buf := b\<rparr>] = s" by (rule list_update_beyond)
  then show ?thesis using assms by simp
qed

lemma same_but_buffers_length: "same_but_buffers s s' \<Longrightarrow> length s' = length s"
  unfolding same_but_buffers_def by (rule map_eq_imp_length_eq)

lemma iop_pairs_frame:
  "iop_pairs f s ps = (s', e) \<Longrightarrow>
     same_but_buffers s s' \<and> (\<forall>r. r \<notin> fst ` set ps \<longrightarrow> s' ! r = s ! r)"
proof (induction ps arbitrary: s)
  case Nil
  then show ?case by (simp add: same_but_buffers_refl)
next
  case (Cons p ps)
  obtain r q where p: "p = (r, q)" by (cases p)
  show ?case
  proof (cases "f (s ! r) (Win (s ! q))")
    case (Inl err)
    then show ?thesis using Cons.prems p by (simp add: same_but_buffers_refl)
  next
    case (Inr b)
    then have "iop_pairs f (s[r := (s ! r)\<lparr>buf := b\<rparr>]) ps = (s', e)"
      using Cons.prems p by simp
    from Cons.IH [OF this] show ?thesis
      using p by (auto dest: same_but_buffers_update)
  qed
qed

lemma iop_each_frame:
  "iop_each f s rs x = (s', e) \<Longrightarrow>
     same_but_buffers s s' \<and> (\<forall>r. r \<notin> set rs \<longrightarrow> s' ! r = s ! r)"
proof (induction rs arbitrary: s)
  case Nil
  then show ?case by (simp add: same_but_buffers_refl)
next
  case (Cons r rs)
  show ?case
  proof (cases "f (s ! r) (Num x)")
    case (Inl err)
    then show ?thesis using Cons.prems by (simp add: same_but_buffers_refl)
  next
    case (Inr b)
    then have "iop_each f (s[r := (s ! r)\<lparr>buf := b\<rparr>]) rs x = (s', e)"
      using Cons.prems by simp
    from Cons.IH [OF this] show ?thesis
      by (auto dest: same_but_buffers_update)
  qed
qed

lemma rback_loop_frame:
  "rback_loop W s rs = (s', e) \<Longrightarrow>
     same_but_buffers s s' \<and> (\<forall>r. r \<notin> set rs \<longrightarrow> s' ! r = s ! r)"
proof (induction rs arbitrary: s)
  case Nil
  then show ?case by (simp add: same_but_buffers_refl)
next
  case (Cons r rs)
  show ?case
  proof (cases "w_median W (s ! r)")
    case (Inl err)
    then show ?thesis using Cons.prems by (simp add: same_but_buffers_refl)
  next
    case m: (Inr m)
    show ?thesis
    proof (cases "w_inplace W Sub (s ! r) (Num m)")
      case (Inl err)
      then show ?thesis using Cons.prems m by (simp add: same_but_buffers_refl)
    next
      case (Inr b)
      then have "rback_loop W (s[r := (s ! r)\<lparr>buf := b\<rparr>]) rs = (s', e)"
        using Cons.prems m by simp
      from Cons.IH [OF this] show ?thesis
        by (auto dest: same_but_buffers_update)
    qed
  qed
qed

lemma iop_each_total:
  "\<forall>w. \<exists>b. f w (Num x) = Inr b \<Longrightarrow> snd (iop_each f s rs x) = None"
proof (induction rs arbitrary: s)
  case Nil
  then show ?case by simp
next
  case (Cons r rs)
  from Cons.prems obtain b where "f (s ! r) (Num x) = Inr b" by blast
  then show ?case using Cons by simp
qed

lemma update_buf_length:
  "length b = length (buf (s ! r)) \<Longrightarrow>
     length (buf (s[r := (s ! r)\<lparr>buf := b\<rparr>] ! i)) = length (buf (s ! i))"
proof (cases "i = r")
  case False
  then show ?thesis by simp
next
  case True
  assume b: "length b = length (buf (s ! r))"
  show ?thesis
  proof (cases "r < length s")
    case True
    then show ?thesis using b \<open>i = r\<close> by simp
  next
    case False
    then have "length s \<le> r" by simp
    then have "s[r := (s ! r)\<lparr>buf := b\<rparr>] = s" by (rule list_update_beyond)
    then show ?thesis by simp
  qed
qed

lemma iop_pairs_returns:
  "keeps_shape f \<Longrightarrow> equal_shapes s ps \<Longrightarrow> snd (iop_pairs f s ps) = None"
proof (induction ps arbitrary: s)
  case Nil
  then show ?case by simp
next
  case (Cons p ps)
  obtain r q where p: "p = (r, q)" by (cases p)
  have "length (buf (s ! q)) = length (buf (s ! r))"
    using Cons.prems(2) p by (simp add: equal_shapes_def)
  then obtain b where b: "f (s ! r) (Win (s ! q)) = Inr b" "length b = length (buf (s ! r))"
    using Cons.prems(1) unfolding keeps_shape_def by blast
  let ?s1 = "s[r := (s ! r)\<lparr>buf := b\<rparr>]"
  have "equal_shapes ?s1 ps"
    using Cons.prems(2) p by (simp add: equal_shapes_def update_buf_length [OF b(2)])
  then have "snd (iop_pairs f ?s1 ps) = None"
    using Cons.prems(1) by (intro Cons.IH)
  then show ?case using p b by simp
qed

lemma ccd_iop_frame:
  assumes "ccd_iop W bop h self other = (h', res)"
  shows "h_ccds h' = h_ccds h" and "h_lists h' = h_lists h"
    and "same_but_buffers (h_wins h) (h_wins h')"
    and "\<forall>r. r \<notin> set (data_of h self) \<longrightarrow> h_wins h' ! r = h_wins h ! r"
    and "res = Inr self \<or> (\<exists>e. res = Inl e)"
proof -
  show "h_ccds h' = h_ccds h" and "h_lists h' = h_lists h"
    and "res = Inr self \<or> (\<exists>e. res = Inl e)"
    using assms
    by (auto simp: ccd_iop_def split: argument.splits prod.splits option.splits)
  show "same_but_buffers (h_wins h) (h_wins h')"
    using assms
    by (auto simp: ccd_iop_def split: argument.splits prod.splits option.splits
        dest: iop_pairs_frame iop_each_frame)
  show "\<forall>r. r \<notin> set (data_of h self) \<longrightarrow> h_wins h' ! r = h_wins h ! r"
  proof (cases other)
    case (Object c)
    obtain e where
      "iop_pairs (w_inplace W bop) (h_wins h) (zip (data_of h self) (data_of h c)) = (h_wins h', e)"
      using assms Object by (auto simp: ccd_iop_def split: prod.splits option.splits)
    from iop_pairs_frame [OF this]
    have "\<forall>r. r \<notin> fst ` set (zip (data_of h self) (data_of h c)) \<longrightarrow>
        h_wins h' ! r = h_wins h ! r" by blast
    moreover have "fst ` set (zip (data_of h self) (data_of h c)) \<subseteq> set (data_of h self)"
      by (auto dest: set_zip_leftD)
    ultimately show ?thesis by blast
  next
    case (Number x)
    obtain e where "iop_each (w_inplace W bop) (h_wins h) (data_of h self) x = (h_wins h', e)"
      using assms Number by (auto simp: ccd_iop_def split: prod.splits option.splits)
    from iop_each_frame [OF this] show ?thesis by blast
  qed
qed

lemma rback_frame:
  assumes "rback W h self = (h', err)"
  shows "h_ccds h' = h_ccds h" and "h_lists h' = h_lists h"
    and "same_but_buffers (h_wins h) (h_wins h')"
    and "\<forall>r. r \<notin> set (data_of h self) \<longrightarrow> h_wins h' ! r = h_wins h ! r"
proof -
  obtain s' where run: "rback_loop W (h_wins h) (data_of h self) = (s', err)"
    and h': "h' = h\<lparr>h_wins := s'\<rparr>"
    using assms by (auto simp: rback_def split: prod.splits)
  show "h_ccds h' = h_ccds h" and "h_lists h' = h_lists h" using h' by simp_all
  from rback_loop_frame [OF run]
  show "same_but_buffers (h_wins h) (h_wins h')"
    and "\<forall>r. r \<notin> set (data_of h self) \<longrightarrow> h_wins h' ! r = h_wins h ! r"
    using h' by simp_all
qed

text \<open>
  Claim C10. \<^verbatim>\<open>+=\<close>, \<^verbatim>\<open>-=\<close>, \<^verbatim>\<open>*=\<close> and \<^verbatim>\<open>/=\<close> (\<open>ccd_iop\<close> at the four operators), with a
  number or a CCD object as operand, and \<^verbatim>\<open>rback()\<close> change nothing but pixel buffers,
  and only those of Windows of the CCD, whether the operation returns or a Window
  operator raises: every CCD object of the heap keeps its attributes (so \<open>nxmax\<close>,
  \<open>nymax\<close>, \<open>time\<close>, \<open>good\<close>, \<open>head\<close> and the reference \<^verbatim>\<open>_data\<close> to the list object of
  \<open>self\<close> are the same), every list object holds the same Windows in the same order, the
  store keeps its Window objects, each with its position, binning, shape and element
  kind, and every Window that is not in the list of \<open>self\<close> is as before. An operator
  that returns returns the reference \<open>self\<close>; and it does return when the Window
  operator never raises on a number, or, for a CCD operand, when the paired Windows have
  equal shapes and the Window operator keeps to operands of equal shape.
\<close>

theorem inplace_frame:
  "(case ccd_iop W bop h self other of
      (h', res) \<Rightarrow>
        h_ccds h' = h_ccds h \<and> h_lists h' = h_lists h \<and>
        deref h' self = deref h self \<and>
        same_but_buffers (h_wins h) (h_wins h') \<and>
        (\<forall>r. r \<notin> set (data_of h self) \<longrightarrow> h_wins h' ! r = h_wins h ! r) \<and>
        (res = Inr self \<or> (\<exists>e. res = Inl e)))
   \<and> (case rback W h self of
        (h', err) \<Rightarrow>
          h_ccds h' = h_ccds h \<and> h_lists h' = h_lists h \<and>
          deref h' self = deref h self \<and>
          same_but_buffers (h_wins h) (h_wins h') \<and>
          (\<forall>r. r \<notin> set (data_of h self) \<longrightarrow> h_wins h' ! r = h_wins h ! r))
   \<and> ((\<forall>w. \<exists>b. w_inplace W bop w (Num x) = Inr b) \<longrightarrow>
        snd (ccd_iop W bop h self (Number x)) = Inr self)
   \<and> (keeps_shape (w_inplace W bop) \<and>
       equal_shapes (h_wins h) (zip (data_of h self) (data_of h c)) \<longrightarrow>
        snd (ccd_iop W bop h self (Object c)) = Inr self)"
proof -
  have d: "deref h' self = deref h self"
    if "h_ccds h' = h_ccds h" and "h_lists h' = h_lists h" for h' :: "('a, 'b) heap"
    using that by (simp add: deref_def data_of_def)
  have 1: "case ccd_iop W bop h self other of
      (h', res) \<Rightarrow>
        h_ccds h' = h_ccds h \<and> h_lists h' = h_lists h \<and>
        deref h' self = deref h self \<and>
        same_but_buffers (h_wins h) (h_wins h') \<and>
        (\<forall>r. r \<notin> set (data_of h self) \<longrightarrow> h_wins h' ! r = h_wins h ! r) \<and>
        (res = Inr self \<or> (\<exists>e. res = Inl e))"
  proof (cases "ccd_iop W bop h self other")
    case (Pair h' res)
    from ccd_iop_frame [OF Pair] d [of h'] show ?thesis unfolding Pair by simp
  qed
  have 2: "case rback W h self of
        (h', err) \<Rightarrow>
          h_ccds h' = h_ccds h \<and> h_lists h' = h_lists h \<and>
          deref h' self = deref h self \<and>
          same_but_buffers (h_wins h) (h_wins h') \<and>
          (\<forall>r. r \<notin> set (data_of h self) \<longrightarrow> h_wins h' ! r = h_wins h ! r)"
  proof (cases "rback W h self")
    case (Pair h' err)
    from rback_frame [OF Pair] d [of h'] show ?thesis unfolding Pair by simp
  qed
  have 3: "(\<forall>w. \<exists>b. w_inplace W bop w (Num x) = Inr b) \<longrightarrow>
        snd (ccd_iop W bop h self (Number x)) = Inr self"
  proof
    assume "\<forall>w. \<exists>b. w_inplace W bop w (Num x) = Inr b"
    then have "snd (iop_each (w_inplace W bop) (h_wins h) (data_of h self) x) = None"
      by (rule iop_each_total)
    then show "snd (ccd_iop W bop h self (Number x)) = Inr self"
      by (cases "iop_each (w_inplace W bop) (h_wins h) (data_of h self) x")
        (simp add: ccd_iop_def)
  qed
  have 4: "keeps_shape (w_inplace W bop) \<and>
       equal_shapes (h_wins h) (zip (data_of h self) (data_of h c)) \<longrightarrow>
        snd (ccd_iop W bop h self (Object c)) = Inr self"
  proof
    assume a: "keeps_shape (w_inplace W bop) \<and>
       equal_shapes (h_wins h) (zip (data_of h self) (data_of h c))"
    then have "snd (iop_pairs (w_inplace W bop) (h_wins h) (zip (data_of h self) (data_of h c)))
        = None"
      by (intro iop_pairs_returns) simp_all
    then show "snd (ccd_iop W bop h self (Object c)) = Inr self"
      by (cases "iop_pairs (w_inplace W bop) (h_wins h) (zip (data_of h self) (data_of h c))")
        (simp add: ccd_iop_def)
  qed
  from 1 2 3 4 show ?thesis by blast
qed

theorem inplace_frame_witness:
  "ccd_iadd elementwise
       (mk_heap [mk_window 0 0 2 1 [500, 500], mk_window 5 0 2 1 [1, 2]] [[0], [1]]) 0 (Number 10)
     = (mk_heap [mk_window 0 0 2 1 [510, 510], mk_window 5 0 2 1 [1, 2]] [[0], [1]], Inr 0)
   \<and> ccd_isub elementwise
       (mk_heap [mk_window 0 0 2 1 [500, 500], mk_window 5 0 2 1 [1, 2]] [[0], [1]]) 0 (Object 1)
     = (mk_heap [mk_window 0 0 2 1 [499, 498], mk_window 5 0 2 1 [1, 2]] [[0], [1]], Inr 0)
   \<and> rback elementwise (mk_heap [mk_window 0 0 3 1 [1, 5, 3], mk_window 5 0 1 1 [7]] [[0]]) 0
     = (mk_heap [mk_window 0 0 3 1 [- 2, 2, 0], mk_window 5 0 1 1 [7]] [[0]], None)"
proof -
  let ?h = "mk_heap [mk_window 0 0 2 1 [500, 500], mk_window 5 0 2 1 [1, 2]] [[0], [1]]"
  have d0: "data_of ?h 0 = [0]" and d1: "data_of ?h 1 = [1]"
    by (simp_all add: data_of_def mk_heap_def mk_object_def upt_conv_Cons)
  have tot: "\<forall>w. \<exists>b. w_inplace elementwise Add w (Num 10) = Inr b"
    by (simp add: elementwise_def)
  have ks: "keeps_shape (w_inplace elementwise Sub)"
    by (simp add: keeps_shape_def elementwise_def)
  have es: "equal_shapes (h_wins ?h) (zip (data_of ?h 0) (data_of ?h 1))"
    unfolding d0 d1 by (simp add: equal_shapes_def mk_heap_def mk_window_def)
  have r1: "snd (ccd_iop elementwise Add ?h 0 (Number 10)) = Inr 0"
    using inplace_frame [where W = elementwise and bop = Add and h = ?h and self = 0 and x = 10]
      tot by blast
  have r2: "snd (ccd_iop elementwise Sub ?h 0 (Object 1)) = Inr 0"
    using inplace_frame [where W = elementwise and bop = Sub and h = ?h and self = 0 and c = 1]
      ks es by blast
  have s1: "fst (ccd_iop elementwise Add ?h 0 (Number 10))
      = mk_heap [mk_window 0 0 2 1 [510, 510], mk_window 5 0 2 1 [1, 2]] [[0], [1]]"
    unfolding ccd_iop_def
    by (simp add: data_of_def mk_object_def elementwise_def mk_heap_def mk_window_def)
  have s2: "fst (ccd_iop elementwise Sub ?h 0 (Object 1))
      = mk_heap [mk_window 0 0 2 1 [499, 498], mk_window 5 0 2 1 [1, 2]] [[0], [1]]"
    unfolding ccd_iop_def
    by (simp add: data_of_def mk_object_def elementwise_def mk_heap_def mk_window_def)
  have a: "ccd_iadd elementwise ?h 0 (Number 10)
     = (mk_heap [mk_window 0 0 2 1 [510, 510], mk_window 5 0 2 1 [1, 2]] [[0], [1]], Inr 0)"
    unfolding ccd_iadd_def using r1 s1 by (simp add: prod_eq_iff)
  have b: "ccd_isub elementwise ?h 0 (Object 1)
     = (mk_heap [mk_window 0 0 2 1 [499, 498], mk_window 5 0 2 1 [1, 2]] [[0], [1]], Inr 0)"
    unfolding ccd_isub_def using r2 s2 by (simp add: prod_eq_iff)
  have c: "rback elementwise (mk_heap [mk_window 0 0 3 1 [1, 5, 3], mk_window 5 0 1 1 [7]] [[0]]) 0
     = (mk_heap [mk_window 0 0 3 1 [- 2, 2, 0], mk_window 5 0 1 1 [7]] [[0]], None)"
    unfolding rback_def
    by (simp add: data_of_def mk_object_def elementwise_def mk_heap_def mk_window_def)
  from a b c show ?thesis by blast
qed

section \<open>Cropping to the layout of another CCD\<close>

lemma cropTo_inner_first_crop:
  "cropTo_inner s rs wino = first_crop (map ((!) s) rs) wino"
  by (induction rs) (simp_all add: first_crop_def)

lemma first_crop_None: "first_crop wins wino = None \<longleftrightarrow> \<not> croppable wins wino"
  by (auto simp add: first_crop_def croppable_def find_None_iff list_ex_iff)

lemma map_nth_append:
  "\<forall>r \<in> set rs. r < length s \<Longrightarrow> map ((!) (s @ xs)) rs = map ((!) s) rs"
  by (simp add: nth_append)

lemma cropTo_outer_eq:
  "\<forall>r \<in> set sdata. r < length s \<Longrightarrow> \<forall>q \<in> set qs. q < length s \<Longrightarrow>
     cropTo_outer s sdata nwino qs wins =
       (let A = map ((!) s) sdata; B = map ((!) s) qs;
            m = takeWhile (croppable A) B
        in (s @ map (\<lambda>wino. the (first_crop A wino)) m,
            if length m = length B then Inr (wins @ [length s ..< length s + length B])
            else Inl (UltracamError (Crop_window (nwino + length m + 1)))))"
proof (induction qs arbitrary: s nwino wins)
  case Nil
  then show ?case by simp
next
  case (Cons q qs)
  let ?A = "map ((!) s) sdata"
  show ?case
  proof (cases "croppable ?A (s ! q)")
    case False
    then have "cropTo_inner s sdata (s ! q) = None"
      by (simp add: cropTo_inner_first_crop first_crop_None)
    then show ?thesis using False by simp
  next
    case True
    then obtain w where w: "first_crop ?A (s ! q) = Some w"
      using first_crop_None [of ?A "s ! q"] by (cases "first_crop ?A (s ! q)") auto
    have v1: "\<forall>r \<in> set sdata. r < length (s @ [w])" using Cons.prems(1) by auto
    have v2: "\<forall>r \<in> set qs. r < length (s @ [w])" using Cons.prems(2) by auto
    have A': "map ((!) (s @ [w])) sdata = ?A"
      using Cons.prems(1) by (rule map_nth_append)
    have B': "map ((!) (s @ [w])) qs = map ((!) s) qs"
      using Cons.prems(2) by (simp add: map_nth_append)
    have up: "[length s ..< length s + Suc (length qs)] = length s # [Suc (length s) ..< Suc (length s) + length qs]"
    proof -
      have "[length s ..< length s + Suc (length qs)] = length s # [Suc (length s) ..< length s + Suc (length qs)]"
        by (rule upt_conv_Cons) simp
      then show ?thesis by simp
    qed
    show ?thesis
      using True w up
      by (simp add: cropTo_inner_first_crop Cons.IH [OF v1 v2] A' B' Let_def)
  qed
qed


lemma takeWhile_first:
  "(i < length xs \<and> \<not> P (xs ! i) \<and> (\<forall>j<i. P (xs ! j))) \<longleftrightarrow>
   (i = length (takeWhile P xs) \<and> i < length xs)"
proof
  assume h: "i < length xs \<and> \<not> P (xs ! i) \<and> (\<forall>j<i. P (xs ! j))"
  then have "takeWhile P xs = take i xs"
    by (simp add: takeWhile_eq_take_P_nth)
  then show "i = length (takeWhile P xs) \<and> i < length xs" using h by simp
next
  assume h: "i = length (takeWhile P xs) \<and> i < length xs"
  then have 1: "\<not> P (xs ! i)" using nth_length_takeWhile [of P xs] by simp
  have 2: "\<forall>j<i. P (xs ! j)"
  proof (intro allI impI)
    fix j assume j: "j < i"
    then have "takeWhile P xs ! j = xs ! j" using h by (simp add: takeWhile_nth)
    moreover have "takeWhile P xs ! j \<in> set (takeWhile P xs)" using j h by simp
    ultimately show "P (xs ! j)" using set_takeWhileD [of "xs ! j" P xs] by simp
  qed
  from h 1 2 show "i < length xs \<and> \<not> P (xs ! i) \<and> (\<forall>j<i. P (xs ! j))" by simp
qed

lemma takeWhile_full:
  "length (takeWhile P xs) = length xs \<longleftrightarrow> (\<forall>x \<in> set xs. P x)"
  by (induction xs) auto

lemma map_nth_fresh:
  "map ((!) (s @ xs)) [length s ..< length s + length xs] = xs"
  by (rule nth_equalityI) (simp_all add: nth_append)

lemma map_the_first_crop:
  "\<forall>x \<in> set B. croppable A x \<Longrightarrow>
     map Some (map (\<lambda>wino. the (first_crop A wino)) B) = map (first_crop A) B"
proof (induction B)
  case Nil
  then show ?case by simp
next
  case (Cons x B)
  then have "croppable A x" by simp
  then obtain w where "first_crop A x = Some w"
    using first_crop_None [of A x] by (cases "first_crop A x") auto
  then show ?case using Cons by simp
qed


lemma cropTo_eq:
  assumes "allocated h a" and "allocated h b"
  shows "cropTo h a b =
    (if nxmax (deref h a) \<noteq> nxmax (deref h b) \<or> nymax (deref h a) \<noteq> nymax (deref h b)
     then (h, Inl (UltracamError Crop_dimensions))
     else (let A = windows (h_wins h) (deref h a); B = windows (h_wins h) (deref h b);
               m = takeWhile (croppable A) B;
               s' = h_wins h @ map (\<lambda>wino. the (first_crop A wino)) m
           in if length m = length B
              then (h\<lparr>h_wins := s',
                      h_lists := h_lists h @ [[length (h_wins h) ..< length (h_wins h) + length B]],
                      h_ccds := h_ccds h @
                        [\<lparr>o_data = length (h_lists h), o_time = o_time (h_ccds h ! a),
                          o_nxmax = o_nxmax (h_ccds h ! a), o_nymax = o_nymax (h_ccds h ! a),
                          o_good = o_good (h_ccds h ! a), o_head = o_head (h_ccds h ! a)\<rparr>]\<rparr>,
                    Inr (length (h_ccds h)))
              else (h\<lparr>h_wins := s'\<rparr>, Inl (UltracamError (Crop_window (length m + 1))))))"
proof -
  have va: "\<forall>r \<in> set (data_of h a). r < length (h_wins h)"
    using assms(1) by (simp add: allocated_def list_all_iff)
  have vb: "\<forall>q \<in> set (data_of h b). q < length (h_wins h)"
    using assms(2) by (simp add: allocated_def list_all_iff)
  show ?thesis
    by (simp add: cropTo_def cropTo_outer_eq [OF va vb] windows_def deref_def CCD_init_def
        CCD_new_def Let_def)
qed



text \<open>
  Claim C3. \<^verbatim>\<open>a.cropTo(b)\<close> raises \<^verbatim>\<open>UltracamError\<close> and nothing else: with the message
  on the dimensions exactly when \<open>nxmax\<close> or \<open>nymax\<close> of \<open>a\<close> and \<open>b\<close> differ, and otherwise
  with the message that names the ordinal \<open>k + 1\<close> exactly when the Window \<open>k\<close> of \<open>b\<close>
  (counted from 0) is the first to which no Window of \<open>a\<close> can be cropped; so it raises
  exactly when the dimensions differ or some Window of \<open>b\<close> has no Window of \<open>a\<close> that can
  be cropped to it. When it returns, it returns a CCD object that was not on the heap
  before, with \<open>time\<close>, \<open>nxmax\<close>, \<open>nymax\<close>, \<open>good\<close> and \<open>head\<close> of \<open>a\<close>, whose Windows are
  new objects, one for each Window of \<open>b\<close> in order: the crop of the first Window of \<open>a\<close>
  that can be cropped to it. In every case all objects that were on the heap are as
  before, Windows, lists and CCDs; so \<open>a\<close> has its attributes, its list and its Windows.
\<close>

theorem cropTo_spec:
  assumes "allocated h a" and "allocated h b"
  shows "case cropTo h a b of
     (h', res) \<Rightarrow>
       take (length (h_wins h)) (h_wins h') = h_wins h \<and>
       take (length (h_lists h)) (h_lists h') = h_lists h \<and>
       take (length (h_ccds h)) (h_ccds h') = h_ccds h \<and>
       deref h' a = deref h a \<and>
       windows (h_wins h') (deref h' a) = windows (h_wins h) (deref h a) \<and>
       (res = Inl (UltracamError Crop_dimensions) \<longleftrightarrow>
          nxmax (deref h a) \<noteq> nxmax (deref h b) \<or> nymax (deref h a) \<noteq> nymax (deref h b)) \<and>
       (\<forall>k. res = Inl (UltracamError (Crop_window (Suc k))) \<longleftrightarrow>
          nxmax (deref h a) = nxmax (deref h b) \<and> nymax (deref h a) = nymax (deref h b) \<and>
          k < len (deref h b) \<and>
          \<not> croppable (windows (h_wins h) (deref h a)) (windows (h_wins h) (deref h b) ! k) \<and>
          (\<forall>j<k. croppable (windows (h_wins h) (deref h a))
                   (windows (h_wins h) (deref h b) ! j))) \<and>
       res \<noteq> Inl (UltracamError (Crop_window 0)) \<and>
       ((\<exists>e. res = Inl e) \<longleftrightarrow>
          nxmax (deref h a) \<noteq> nxmax (deref h b) \<or> nymax (deref h a) \<noteq> nymax (deref h b) \<or>
          (\<exists>wino \<in> set (windows (h_wins h) (deref h b)).
             \<not> croppable (windows (h_wins h) (deref h a)) wino)) \<and>
       (\<forall>e. res = Inl e \<longrightarrow> (\<exists>m. e = UltracamError m)) \<and>
       (\<forall>c. res = Inr c \<longrightarrow>
          c = length (h_ccds h) \<and>
          time (deref h' c) = time (deref h a) \<and> nxmax (deref h' c) = nxmax (deref h a) \<and>
          nymax (deref h' c) = nymax (deref h a) \<and> good (deref h' c) = good (deref h a) \<and>
          head (deref h' c) = head (deref h a) \<and>
          data (deref h' c) =
            [length (h_wins h) ..< length (h_wins h) + len (deref h b)] \<and>
          map Some (windows (h_wins h') (deref h' c)) =
            map (first_crop (windows (h_wins h) (deref h a))) (windows (h_wins h) (deref h b)))"
proof -
  define A where "A = windows (h_wins h) (deref h a)"
  define B where "B = windows (h_wins h) (deref h b)"
  define n where "n = length (takeWhile (croppable A) B)"
  define news where "news = map (\<lambda>wino. the (first_crop A wino)) (takeWhile (croppable A) B)"
  define s' where "s' = h_wins h @ news"
  have lB: "length B = len (deref h b)"
    by (simp add: B_def windows_def len_def)
  have va: "\<forall>r \<in> set (data_of h a). r < length (h_wins h)"
    using assms(1) by (simp add: allocated_def list_all_iff)
  have ia: "a < length (h_ccds h)" and la: "o_data (h_ccds h ! a) < length (h_lists h)"
    using assms(1) by (simp_all add: allocated_def)
  have da: "data (deref h a) = data_of h a" by (simp add: deref_def CCD_init_def)
  have keep: "windows s' (deref h a) = A"
    using map_nth_append [OF va, of news] by (simp add: A_def windows_def s'_def da)
  have first: "\<And>k. (k < length B \<and> \<not> croppable A (B ! k) \<and> (\<forall>j<k. croppable A (B ! j)))
      \<longleftrightarrow> (k = n \<and> k < length B)"
    unfolding n_def by (rule takeWhile_first)
  have full: "n = length B \<longleftrightarrow> (\<forall>x \<in> set B. croppable A x)"
    unfolding n_def by (rule takeWhile_full)
  have le: "n \<le> length B" unfolding n_def by (rule length_takeWhile_le)
  consider (dims) "nxmax (deref h a) \<noteq> nxmax (deref h b) \<or> nymax (deref h a) \<noteq> nymax (deref h b)"
    | (ok) "nxmax (deref h a) = nxmax (deref h b)" "nymax (deref h a) = nymax (deref h b)"
        "n = length B"
    | (miss) "nxmax (deref h a) = nxmax (deref h b)" "nymax (deref h a) = nymax (deref h b)"
        "n < length B"
    using le by linarith
  then show ?thesis
  proof cases
    case dims
    then have "cropTo h a b = (h, Inl (UltracamError Crop_dimensions))"
      by (simp add: cropTo_eq [OF assms])
    then show ?thesis using dims by auto
  next
    case ok
    define h' where "h' = h\<lparr>h_wins := s',
        h_lists := h_lists h @ [[length (h_wins h) ..< length (h_wins h) + length B]],
        h_ccds := h_ccds h @
          [\<lparr>o_data = length (h_lists h), o_time = o_time (h_ccds h ! a),
            o_nxmax = o_nxmax (h_ccds h ! a), o_nymax = o_nymax (h_ccds h ! a),
            o_good = o_good (h_ccds h ! a), o_head = o_head (h_ccds h ! a)\<rparr>]\<rparr>"
    have all: "\<forall>x \<in> set B. croppable A x" using ok(3) full by simp
    then have tw: "takeWhile (croppable A) B = B" by simp
    have ln: "length news = length B" by (simp add: news_def tw)
    have eq: "cropTo h a b = (h', Inr (length (h_ccds h)))"
      using ok n_def
      by (simp add: cropTo_eq [OF assms] Let_def A_def [symmetric] B_def [symmetric]
          news_def s'_def h'_def)
    have p1: "take (length (h_wins h)) (h_wins h') = h_wins h"
      and p2: "take (length (h_lists h)) (h_lists h') = h_lists h"
      and p3: "take (length (h_ccds h)) (h_ccds h') = h_ccds h"
      by (simp_all add: h'_def s'_def)
    have d: "deref h' a = deref h a"
      using ia la by (simp add: deref_def data_of_def h'_def nth_append)
    have hw: "h_wins h' = s'" by (simp add: h'_def)
    have wa: "windows (h_wins h') (deref h' a) = A"
      unfolding d hw by (rule keep)
    have dn: "deref h' (length (h_ccds h)) =
        CCD_init [length (h_wins h) ..< length (h_wins h) + length B]
          (time (deref h a)) (nxmax (deref h a)) (nymax (deref h a)) (good (deref h a))
          (head (deref h a))"
      by (simp add: deref_def data_of_def h'_def CCD_init_def)
    have w: "map Some (windows (h_wins h') (deref h' (length (h_ccds h)))) = map (first_crop A) B"
    proof -
      have "map ((!) (h_wins h @ news)) [length (h_wins h) ..< length (h_wins h) + length news]
          = news"
        by (rule map_nth_fresh)
      then have "windows (h_wins h') (deref h' (length (h_ccds h))) = news"
        unfolding windows_def dn hw s'_def by (simp add: CCD_init_def ln)
      then show ?thesis using map_the_first_crop [OF all] by (simp add: news_def tw)
    qed
    have nomiss: "\<not> (\<exists>wino \<in> set B. \<not> croppable A wino)" using all by simp
    have nok: "\<And>k. \<not> (k < length B \<and> \<not> croppable A (B ! k) \<and> (\<forall>j<k. croppable A (B ! j)))"
      using first ok(3) by simp
    have fields: "time (deref h' (length (h_ccds h))) = time (deref h a) \<and>
        nxmax (deref h' (length (h_ccds h))) = nxmax (deref h a) \<and>
        nymax (deref h' (length (h_ccds h))) = nymax (deref h a) \<and>
        good (deref h' (length (h_ccds h))) = good (deref h a) \<and>
        head (deref h' (length (h_ccds h))) = head (deref h a) \<and>
        data (deref h' (length (h_ccds h))) =
          [length (h_wins h) ..< length (h_wins h) + length B]"
      by (simp add: dn CCD_init_def)
    show ?thesis
      unfolding eq A_def [symmetric] B_def [symmetric] lB [symmetric]
      using ok(1,2) p1 p2 p3 d wa w nomiss nok fields by simp
  next
    case miss
    define h' where "h' = h\<lparr>h_wins := s'\<rparr>"
    have eq: "cropTo h a b = (h', Inl (UltracamError (Crop_window (Suc n))))"
      using miss n_def
      by (simp add: cropTo_eq [OF assms] Let_def A_def [symmetric] B_def [symmetric]
          news_def s'_def h'_def)
    have p1: "take (length (h_wins h)) (h_wins h') = h_wins h"
      and p2: "take (length (h_lists h)) (h_lists h') = h_lists h"
      and p3: "take (length (h_ccds h)) (h_ccds h') = h_ccds h"
      by (simp_all add: h'_def s'_def)
    have d: "deref h' a = deref h a"
      by (simp add: deref_def data_of_def h'_def)
    have hw: "h_wins h' = s'" by (simp add: h'_def)
    have wa: "windows (h_wins h') (deref h' a) = A"
      unfolding d hw by (rule keep)
    have ex: "\<exists>wino \<in> set B. \<not> croppable A wino" using miss(3) full by auto
    have k: "\<And>k. (n = k) \<longleftrightarrow>
        (k < length B \<and> \<not> croppable A (B ! k) \<and> (\<forall>j<k. croppable A (B ! j)))"
      using first miss(3) by auto
    show ?thesis
      unfolding eq A_def [symmetric] B_def [symmetric] lB [symmetric]
      using miss(1,2) p1 p2 p3 d wa ex k by simp
  qed
qed


theorem cropTo_spec_witness:
  "allocated (mk_heap [mk_window 0 0 4 1 [1, 2, 3, 4], mk_window 1 0 2 1 [0, 0],
                       mk_window 50 50 1 1 [0]] [[0], [1, 2]]) 0
   \<and> allocated (mk_heap [mk_window 0 0 4 1 [1, 2, 3, 4], mk_window 1 0 2 1 [0, 0],
                         mk_window 50 50 1 1 [0]] [[0], [1, 2]]) 1
   \<and> cropTo (mk_heap [mk_window 0 0 4 1 [1, 2, 3, 4], mk_window 1 0 2 1 [0, 0],
                      mk_window 50 50 1 1 [0]] [[0], [1, 2]]) 0 1
     = (mk_heap [mk_window 0 0 4 1 [1, 2, 3, 4], mk_window 1 0 2 1 [0, 0],
                 mk_window 50 50 1 1 [0], mk_window 1 0 2 1 [2, 3]] [[0], [1, 2]],
        Inl (UltracamError (Crop_window 2)))"
proof -
  let ?h = "mk_heap [mk_window 0 0 4 1 [1, 2, 3, 4], mk_window 1 0 2 1 [0, 0],
                     mk_window 50 50 1 1 [0]] [[0], [1, 2]]"
  have h1: "allocated ?h 0"
    by (simp add: allocated_def data_of_def mk_heap_def mk_object_def)
  have h2: "allocated ?h 1"
    by (simp add: allocated_def data_of_def mk_heap_def mk_object_def)
  have A: "windows (h_wins ?h) (deref ?h 0) = [mk_window 0 0 4 1 [1, 2, 3, 4]]"
    by (simp add: windows_def deref_def data_of_def CCD_init_def mk_heap_def mk_object_def)
  have B: "windows (h_wins ?h) (deref ?h 1) = [mk_window 1 0 2 1 [0, 0], mk_window 50 50 1 1 [0]]"
    by (simp add: windows_def deref_def data_of_def CCD_init_def mk_heap_def mk_object_def)
  have c0: "croppable (windows (h_wins ?h) (deref ?h 0)) (windows (h_wins ?h) (deref ?h 1) ! 0)"
    unfolding A B by (simp add: croppable_def win_canCropTo_def inside_def mk_window_def)
  have c1: "\<not> croppable (windows (h_wins ?h) (deref ?h 0)) (windows (h_wins ?h) (deref ?h 1) ! 1)"
    unfolding A B by (simp add: croppable_def win_canCropTo_def inside_def mk_window_def)
  have dims: "nxmax (deref ?h 0) = nxmax (deref ?h 1) \<and> nymax (deref ?h 0) = nymax (deref ?h 1)
      \<and> 1 < len (deref ?h 1)"
    by (simp add: deref_def data_of_def CCD_init_def mk_heap_def mk_object_def len_def)
  have cond: "nxmax (deref ?h 0) = nxmax (deref ?h 1) \<and> nymax (deref ?h 0) = nymax (deref ?h 1) \<and>
      1 < len (deref ?h 1) \<and>
      \<not> croppable (windows (h_wins ?h) (deref ?h 0)) (windows (h_wins ?h) (deref ?h 1) ! 1) \<and>
      (\<forall>j<1. croppable (windows (h_wins ?h) (deref ?h 0)) (windows (h_wins ?h) (deref ?h 1) ! j))"
    using c0 c1 dims by simp
  have res: "snd (cropTo ?h 0 1) = Inl (UltracamError (Crop_window (Suc 1)))"
    using cropTo_spec [OF h1 h2] cond by (cases "cropTo ?h 0 1") simp
  have st: "fst (cropTo ?h 0 1)
      = mk_heap [mk_window 0 0 4 1 [1, 2, 3, 4], mk_window 1 0 2 1 [0, 0],
                 mk_window 50 50 1 1 [0], mk_window 1 0 2 1 [2, 3]] [[0], [1, 2]]"
    by (simp add: cropTo_def data_of_def mk_heap_def mk_object_def win_canCropTo_def inside_def
        mk_window_def win_cropTo_def Let_def)
  have "cropTo ?h 0 1
      = (mk_heap [mk_window 0 0 4 1 [1, 2, 3, 4], mk_window 1 0 2 1 [0, 0],
                  mk_window 50 50 1 1 [0], mk_window 1 0 2 1 [2, 3]] [[0], [1, 2]],
         Inl (UltracamError (Crop_window 2)))"
    using res st by (simp add: prod_eq_iff)
  with h1 h2 show ?thesis by simp
qed

section \<open>Cropping a CCD to itself\<close>

















text \<open>
  The two conditions of well-formedness are needed as well. With a binning factor 0 the
  region of a Window is empty, so that Windows at the same place do not overlap, and the
  second is still cut from the first; and a Window whose buffer holds more than
  \<open>nx * ny\<close> pixels is cut down to \<open>nx * ny\<close> pixels.
\<close>

lemma self_crop_needs_binning:
  "non_overlapping [(mk_window 0 0 1 1 [1])\<lparr>xbin := 0\<rparr>, (mk_window 0 0 1 1 [2])\<lparr>xbin := 0\<rparr>]
   \<and> cropTo (mk_heap [(mk_window 0 0 1 1 [1])\<lparr>xbin := 0\<rparr>,
                       (mk_window 0 0 1 1 [2])\<lparr>xbin := 0\<rparr>] [[0, 1]]) 0 0
     = (mk_heap [(mk_window 0 0 1 1 [1])\<lparr>xbin := 0\<rparr>, (mk_window 0 0 1 1 [2])\<lparr>xbin := 0\<rparr>,
                 (mk_window 0 0 1 1 [1])\<lparr>xbin := 0\<rparr>, (mk_window 0 0 1 1 [1])\<lparr>xbin := 0\<rparr>]
          [[0, 1], [2, 3]], Inr 1)"
proof -
  have a: "non_overlapping
      [(mk_window 0 0 1 1 [1])\<lparr>xbin := 0\<rparr>, (mk_window 0 0 1 1 [2])\<lparr>xbin := 0\<rparr>]"
    by (auto simp: non_overlapping_def overlap_def mk_window_def less_Suc_eq nth_Cons')
  have b: "cropTo (mk_heap [(mk_window 0 0 1 1 [1])\<lparr>xbin := 0\<rparr>,
                       (mk_window 0 0 1 1 [2])\<lparr>xbin := 0\<rparr>] [[0, 1]]) 0 0
     = (mk_heap [(mk_window 0 0 1 1 [1])\<lparr>xbin := 0\<rparr>, (mk_window 0 0 1 1 [2])\<lparr>xbin := 0\<rparr>,
                 (mk_window 0 0 1 1 [1])\<lparr>xbin := 0\<rparr>, (mk_window 0 0 1 1 [1])\<lparr>xbin := 0\<rparr>]
          [[0, 1], [2, 3]], Inr 1)"
    by (simp add: cropTo_def CCD_new_def data_of_def mk_heap_def mk_object_def
        win_canCropTo_def inside_def mk_window_def win_cropTo_def Let_def upt_conv_Cons)
  from a b show ?thesis by blast
qed

lemma self_crop_needs_shape:
  "cropTo (mk_heap [mk_window 0 0 1 1 [1, 2]] [[0]]) 0 0
     = (mk_heap [mk_window 0 0 1 1 [1, 2], mk_window 0 0 1 1 [1]] [[0], [1]], Inr 1)"
  by (simp add: cropTo_def CCD_new_def data_of_def mk_heap_def mk_object_def
      win_canCropTo_def inside_def mk_window_def win_cropTo_def Let_def upt_conv_Cons)

end
